theory Spec2Isabelle
  imports Main "HOL-Library.Word"
begin

section \<open>The capture page \<^verbatim>\<open>frontend/app/analyse/page.tsx\<close>\<close>

text \<open>
  A shallow embedding of the image acquisition pipeline of the page: the helper
  \<^verbatim>\<open>base64ToBlob\<close>, the camera components, and the page component
  \<^verbatim>\<open>Analyse\<close> with its handlers.  JavaScript strings are modelled as
  \<^typ>\<open>string\<close>, one \<^typ>\<open>char\<close> per code unit, so code units above 255
  are outside the model; the binary string returned by \<^verbatim>\<open>atob\<close> has code
  units 0..255 by construction.
\<close>

subsection \<open>MobileCamera: the facing mode\<close>

datatype facing = Environment | User

text \<open>\<^verbatim>\<open>(prev) => (prev === "environment" ? "user" : "environment")\<close>\<close>

definition toggleCamera :: "facing \<Rightarrow> facing" where
  "toggleCamera prev = (if prev = Environment then User else Environment)"

subsection \<open>MobileCamera: the stream effect\<close>

text \<open>
  The effect of lines 33 to 65 depends on \<^verbatim>\<open>facingMode\<close>.  Each run of it
  has its own variable \<^verbatim>\<open>activeStream\<close>, set when the promise of
  \<^verbatim>\<open>getUserMedia\<close> resolves, and returns the cleanup that stops the tracks of
  that variable's stream if it is set.  React calls the cleanup of the current run before
  the next run and at unmount.  The component is an event-driven state machine: the
  events are the click on "Switch Camera", the settling of the \<^verbatim>\<open>getUserMedia\<close>
  promise of a run, and the unmount.
\<close>

record effect_run =
  run_facing :: facing
  activeStream :: "nat option"
  pending :: bool

record camera_state =
  facingMode :: facing
  stream :: "nat option"
  srcObject :: "nat option"
  mounted :: bool
  runs :: "effect_run list"          \<comment> \<open>oldest first; the last one is the current run\<close>
  live :: "(nat \<times> facing) list"      \<comment> \<open>the streams handed out whose tracks are not stopped\<close>
  next_stream :: nat
  camera_errors :: nat               \<comment> \<open>calls of \<^verbatim>\<open>console.error\<close>\<close>

datatype camera_event =
    SwitchCamera      \<comment> \<open>the click that calls \<^verbatim>\<open>toggleCamera\<close>\<close>
  | Granted nat       \<comment> \<open>\<^verbatim>\<open>getUserMedia\<close> of run \<open>k\<close> resolves with a new stream\<close>
  | Denied nat        \<comment> \<open>\<^verbatim>\<open>getUserMedia\<close> of run \<open>k\<close> rejects\<close>
  | Unmount

text \<open>The body of the effect: a new run, whose \<^verbatim>\<open>startCamera\<close> awaits the stream.\<close>

definition startCamera :: "camera_state \<Rightarrow> camera_state" where
  "startCamera st =
     st\<lparr>runs := runs st @
        [\<lparr>run_facing = facingMode st, activeStream = None, pending = True\<rparr>]\<rparr>"

text \<open>
  The cleanup of the current run:
  \<^verbatim>\<open>if (activeStream) activeStream.getTracks().forEach((track) => track.stop())\<close>.
\<close>

definition cleanup :: "camera_state \<Rightarrow> camera_state" where
  "cleanup st =
     (case runs st of
        [] \<Rightarrow> st
      | _ # _ \<Rightarrow>
          (case activeStream (last (runs st)) of
             None \<Rightarrow> st
           | Some s \<Rightarrow> st\<lparr>live := filter (\<lambda>(t, f). t \<noteq> s) (live st)\<rparr>))"

definition MobileCamera_mount :: camera_state where
  "MobileCamera_mount =
     startCamera
       \<lparr>facingMode = Environment, stream = None, srcObject = None, mounted = True,
        runs = [], live = [], next_stream = 0, camera_errors = 0\<rparr>"

definition camera_step :: "camera_state \<Rightarrow> camera_event \<Rightarrow> camera_state" where
  "camera_step st ev =
     (case ev of
        SwitchCamera \<Rightarrow>
          if mounted st
          then startCamera (cleanup (st\<lparr>facingMode := toggleCamera (facingMode st)\<rparr>))
          else st
      | Granted k \<Rightarrow>
          if k < length (runs st) \<and> pending (runs st ! k) then
            (let mediaStream = next_stream st;
                 st1 = st\<lparr>next_stream := next_stream st + 1,
                          live := live st @ [(mediaStream, run_facing (runs st ! k))],
                          runs := (runs st)[k := (runs st ! k)
                                    \<lparr>activeStream := Some mediaStream, pending := False\<rparr>]\<rparr>
             in if mounted st
                then st1\<lparr>srcObject := Some mediaStream, stream := Some mediaStream\<rparr>
                else st1)
          else st
      | Denied k \<Rightarrow>
          if k < length (runs st) \<and> pending (runs st ! k) then
            st\<lparr>runs := (runs st)[k := (runs st ! k)\<lparr>pending := False\<rparr>],
               camera_errors := camera_errors st + 1\<rparr>
          else st
      | Unmount \<Rightarrow> if mounted st then (cleanup st)\<lparr>mounted := False\<rparr> else st)"

definition camera_run :: "camera_state \<Rightarrow> camera_event list \<Rightarrow> camera_state" where
  "camera_run st evs = foldl camera_step st evs"

text \<open>A trace in which the camera is switched or unmounted only once the current run has settled.\<close>

fun settled_before_switch :: "camera_state \<Rightarrow> camera_event list \<Rightarrow> bool" where
  "settled_before_switch st [] = True"
| "settled_before_switch st (ev # evs) =
     ((case ev of
         SwitchCamera \<Rightarrow> \<not> pending (last (runs st))
       | Unmount \<Rightarrow> \<not> pending (last (runs st))
       | _ \<Rightarrow> True)
      \<and> settled_before_switch (camera_step st ev) evs)"

text \<open>
  The invariant of such traces: every earlier run has settled, a pending run has no
  stream yet, and the only stream that can be live is the one of the current run.
\<close>

definition one_stream :: "camera_state \<Rightarrow> bool" where
  "one_stream st =
     (\<exists>old cur. runs st = old @ [cur] \<and> list_all (\<lambda>r. \<not> pending r) old \<and>
        (pending cur \<longrightarrow> activeStream cur = None \<and> mounted st) \<and>
        live st = (if mounted st
                   then (case activeStream cur of None \<Rightarrow> [] | Some s \<Rightarrow> [(s, run_facing cur)])
                   else []))"

subsection \<open>Platform functions used by \<^verbatim>\<open>base64ToBlob\<close>\<close>

datatype js_error =
    InvalidCharacterError      \<comment> \<open>the DOMException thrown by \<^verbatim>\<open>atob\<close>\<close>
  | TypeError                  \<comment> \<open>reading index 1 of \<^verbatim>\<open>null\<close>\<close>
  | SyntaxError                \<comment> \<open>\<^verbatim>\<open>response.json()\<close> on a body that is not JSON\<close>
  | NetworkError string        \<comment> \<open>a rejected \<^verbatim>\<open>fetch\<close> or body read, with its cause\<close>

text \<open>\<^verbatim>\<open>String.prototype.split\<close> with a one-character separator.\<close>

fun split_on :: "char \<Rightarrow> string \<Rightarrow> string list" where
  "split_on s [] = [[]]"
| "split_on s (c # cs) =
     (if c = s then [] # split_on s cs
      else (case split_on s cs of [] \<Rightarrow> [[c]] | p # ps \<Rightarrow> (c # p) # ps))"

text \<open>
  \<^verbatim>\<open>atob\<close> is the forgiving-base64 decode of the WHATWG Infra standard: ASCII
  whitespace is removed; if the length is then a multiple of 4, one or two trailing
  \<^verbatim>\<open>=\<close> are removed; a length of 1 modulo 4 or a character outside the base64
  alphabet is a failure; the sextets are decoded, and the 4 or 2 bits left over by a
  final group of 2 or 3 characters are discarded.
\<close>

definition is_ascii_whitespace :: "char \<Rightarrow> bool" where
  "is_ascii_whitespace c = (of_char c \<in> {9, 10, 12, 13, 32 :: nat})"

text \<open>The base64 alphabet: A-Z are 0..25, a-z are 26..51, 0-9 are 52..61, + is 62, / is 63.\<close>

definition base64_index :: "char \<Rightarrow> nat option" where
  "base64_index c =
     (let n = of_char c :: nat in
      if 65 \<le> n \<and> n \<le> 90 then Some (n - 65)
      else if 97 \<le> n \<and> n \<le> 122 then Some (n - 71)
      else if 48 \<le> n \<and> n \<le> 57 then Some (n + 4)
      else if n = 43 then Some 62
      else if n = 47 then Some 63
      else None)"

definition sextet :: "char \<Rightarrow> nat" where
  "sextet c = (case base64_index c of None \<Rightarrow> 0 | Some v \<Rightarrow> v)"

fun remove_padding :: "string \<Rightarrow> string" where
  "remove_padding [] = []"
| "remove_padding [a] = (if a = CHR ''='' then [] else [a])"
| "remove_padding [a, b] =
     (if b = CHR ''='' then (if a = CHR ''='' then [] else [a]) else [a, b])"
| "remove_padding (a # b # c # rest) = a # remove_padding (b # c # rest)"

fun decode_sextets :: "nat list \<Rightarrow> nat list" where
  "decode_sextets (a # b # c # d # rest) =
     (a * 4 + b div 16) # ((b mod 16) * 16 + c div 4) # ((c mod 4) * 64 + d)
       # decode_sextets rest"
| "decode_sextets [a, b, c] = [a * 4 + b div 16, (b mod 16) * 16 + c div 4]"
| "decode_sextets [a, b] = [a * 4 + b div 16]"
| "decode_sextets _ = []"

definition atob :: "string \<Rightarrow> js_error + string" where
  "atob data =
     (let d1 = filter (\<lambda>c. \<not> is_ascii_whitespace c) data;
          d2 = (if length d1 mod 4 = 0 then remove_padding d1 else d1)
      in if length d2 mod 4 = 1 then Inl InvalidCharacterError
         else if list_ex (\<lambda>c. base64_index c = None) d2 then Inl InvalidCharacterError
         else Inr (map char_of (decode_sextets (map sextet d2))))"

text \<open>
  \<^verbatim>\<open>str.match(/:(.*?);/)\<close>, capture group 1.  The lazy group takes the
  characters up to the first \<^verbatim>\<open>;\<close>; the dot does not match a line terminator,
  so a line terminator before the \<^verbatim>\<open>;\<close> makes the attempt at this colon fail
  and the search goes on at the next character.  The result \<^term>\<open>None\<close> is
  \<^verbatim>\<open>null\<close>.
\<close>

definition is_line_terminator :: "char \<Rightarrow> bool" where
  "is_line_terminator c = (of_char c \<in> {10, 13 :: nat})"

fun lazy_until_semicolon :: "string \<Rightarrow> string option" where
  "lazy_until_semicolon [] = None"
| "lazy_until_semicolon (c # cs) =
     (if c = CHR '';'' then Some []
      else if is_line_terminator c then None
      else map_option ((#) c) (lazy_until_semicolon cs))"

fun match_colon_semicolon :: "string \<Rightarrow> string option" where
  "match_colon_semicolon [] = None"
| "match_colon_semicolon (c # cs) =
     (if c = CHR '':'' then
        (case lazy_until_semicolon cs of
           Some m \<Rightarrow> Some m
         | None \<Rightarrow> match_colon_semicolon cs)
      else match_colon_semicolon cs)"

text \<open>
  A \<^verbatim>\<open>Blob\<close> is its bytes and its type.  The constructor keeps the bytes as they
  are; the type option is lowercased, and replaced by the empty string when it has a
  character outside U+0020..U+007E (File API).
\<close>

record blob =
  blob_bytes :: "8 word list"
  blob_type :: string

definition ascii_lower :: "char \<Rightarrow> char" where
  "ascii_lower c =
     (let n = of_char c :: nat in if 65 \<le> n \<and> n \<le> 90 then char_of (n + 32) else c)"

definition new_Blob :: "8 word list \<Rightarrow> string \<Rightarrow> blob" where
  "new_Blob ab t =
     \<lparr>blob_bytes = ab,
      blob_type =
        (if list_all (\<lambda>c. 32 \<le> (of_char c :: nat) \<and> (of_char c :: nat) \<le> 126) t
         then map ascii_lower t else [])\<rparr>"

subsection \<open>\<^verbatim>\<open>base64ToBlob\<close>\<close>

text \<open>
  The loop \<^verbatim>\<open>for (let i = 0; i < byteString.length; i++) ia[i] = byteString.charCodeAt(i)\<close>
  over the view \<^verbatim>\<open>ia\<close> of the zero-filled buffer \<^verbatim>\<open>ab\<close>; a store
  into a \<^verbatim>\<open>Uint8Array\<close> keeps the value modulo 256.
\<close>

definition to_uint8 :: "nat \<Rightarrow> 8 word" where
  "to_uint8 n = of_nat n"

function fill_bytes :: "string \<Rightarrow> nat \<Rightarrow> 8 word list \<Rightarrow> 8 word list" where
  "fill_bytes byteString i ia =
     (if i < length byteString
      then fill_bytes byteString (i + 1) (ia[i := to_uint8 (of_char (byteString ! i))])
      else ia)"
  by pat_completeness auto
termination
  by (relation "measure (\<lambda>(byteString, i, ia). length byteString - i)") auto

declare fill_bytes.simps [simp del]

text \<open>
  \<^verbatim>\<open>parts[1]\<close> is \<^verbatim>\<open>undefined\<close> when the string has no comma, and
  \<^verbatim>\<open>atob\<close> converts its argument to a string first.
\<close>

definition part1 :: "string list \<Rightarrow> string" where
  "part1 parts = (case parts of _ # p # _ \<Rightarrow> p | _ \<Rightarrow> ''undefined'')"

definition part0 :: "string list \<Rightarrow> string" where
  "part0 parts = (case parts of [] \<Rightarrow> [] | p # _ \<Rightarrow> p)"

definition base64ToBlob :: "string \<Rightarrow> js_error + blob" where
  "base64ToBlob base64 =
     (let parts = split_on CHR '','' base64 in
      case atob (part1 parts) of
        Inl e \<Rightarrow> Inl e
      | Inr byteString \<Rightarrow>
          (case match_colon_semicolon (part0 parts) of
             None \<Rightarrow> Inl TypeError
           | Some mimeString \<Rightarrow>
               Inr (new_Blob (fill_bytes byteString 0 (replicate (length byteString) 0))
                      mimeString)))"

text \<open>
  When \<^verbatim>\<open>base64ToBlob\<close> throws: \<^verbatim>\<open>atob\<close> rejects the text between the
  first and the second comma, or the part before the first comma has no match.
\<close>

definition base64ToBlob_throws :: "string \<Rightarrow> bool" where
  "base64ToBlob_throws s =
     (isl (atob (part1 (split_on CHR '','' s))) \<or>
      match_colon_semicolon (part0 (split_on CHR '','' s)) = None)"

text \<open>The bytes that \<^verbatim>\<open>atob\<close> and the byte loop produce for a text they accept.\<close>

definition decoded :: "string \<Rightarrow> 8 word list" where
  "decoded s = map to_uint8 (decode_sextets (map sextet (remove_padding s)))"

subsection \<open>Base64 encoding (RFC 4648), the inverse the decoded bytes are compared with\<close>

definition base64_char :: "nat \<Rightarrow> char" where
  "base64_char v =
     char_of (if v < 26 then v + 65 else if v < 52 then v + 71 else if v < 62 then v - 4
              else if v = 62 then 43 else (47 :: nat))"

fun base64_encode :: "8 word list \<Rightarrow> string" where
  "base64_encode (x # y # z # rest) =
     base64_char (unat x div 4) # base64_char ((unat x mod 4) * 16 + unat y div 16)
       # base64_char ((unat y mod 16) * 4 + unat z div 64) # base64_char (unat z mod 64)
       # base64_encode rest"
| "base64_encode [x, y] =
     [base64_char (unat x div 4), base64_char ((unat x mod 4) * 16 + unat y div 16),
      base64_char ((unat y mod 16) * 4), CHR ''='']"
| "base64_encode [x] =
     [base64_char (unat x div 4), base64_char ((unat x mod 4) * 16), CHR ''='', CHR ''='']"
| "base64_encode [] = []"

text \<open>
  Canonical base64 text: groups of four alphabet characters, the last group possibly
  padded with one or two \<^verbatim>\<open>=\<close>, and the bits that padding leaves unused are zero.
\<close>

fun canonical_base64 :: "string \<Rightarrow> bool" where
  "canonical_base64 [] = True"
| "canonical_base64 [a, b, c, d] =
     (base64_index a \<noteq> None \<and> base64_index b \<noteq> None \<and>
      (if c = CHR ''='' then d = CHR ''='' \<and> sextet b mod 16 = 0
       else base64_index c \<noteq> None \<and>
            (if d = CHR ''='' then sextet c mod 4 = 0 else base64_index d \<noteq> None)))"
| "canonical_base64 (a # b # c # d # rest) =
     (base64_index a \<noteq> None \<and> base64_index b \<noteq> None \<and> base64_index c \<noteq> None \<and>
      base64_index d \<noteq> None \<and> canonical_base64 rest)"
| "canonical_base64 _ = False"

subsection \<open>\<^verbatim>\<open>FormData\<close>, \<^verbatim>\<open>fetch\<close> and the console\<close>

text \<open>
  The argument of the handlers has the type \<^verbatim>\<open>Blob | string\<close>; a
  \<^verbatim>\<open>File\<close> is a blob with the name the file picker gives it.
\<close>

datatype image = StringImage string | BlobImage blob | FileImage blob string

text \<open>
  An entry of a \<^verbatim>\<open>FormData\<close> is a name with a string or with a file.
  \<^verbatim>\<open>append(name, blob, filename)\<close> stores the blob as a file: under the filename
  given, else under the blob's own name when it is a \<^verbatim>\<open>File\<close>, else under
  \<^verbatim>\<open>"blob"\<close> (XMLHttpRequest standard, "create an entry").
\<close>

datatype form_value = FormString string | FormFile blob string

type_synonym form_data = "(string \<times> form_value) list"

definition append_string :: "form_data \<Rightarrow> string \<Rightarrow> string \<Rightarrow> form_data" where
  "append_string fd name v = fd @ [(name, FormString v)]"

definition append_blob ::
    "form_data \<Rightarrow> string \<Rightarrow> blob \<Rightarrow> string option \<Rightarrow> string option \<Rightarrow> form_data" where
  "append_blob fd name b own_name filename =
     fd @ [(name, FormFile b
        (case filename of
           Some f \<Rightarrow> f
         | None \<Rightarrow> (case own_name of Some n \<Rightarrow> n | None \<Rightarrow> ''blob'')))]"

record request =
  req_url :: string
  req_method :: string
  req_body :: form_data

text \<open>
  What the network answers to the one \<^verbatim>\<open>fetch\<close>: the promise rejects with a
  cause, or it resolves to a response with a status and a body, whose reading gives the
  text or fails with a cause.
\<close>

datatype fetch_result =
    FetchRejected js_error
  | FetchResponse nat "js_error + string"

text \<open>The three places where \<^verbatim>\<open>handleImageUpload\<close> reports to the console.\<close>

datatype 'j console_event =
    Upload_error nat string        \<comment> \<open>\<^verbatim>\<open>console.error("Upload error", status, errorText)\<close>\<close>
  | Server_response 'j             \<comment> \<open>\<^verbatim>\<open>console.log("Server response:", data)\<close>\<close>
  | Error_uploading_image js_error \<comment> \<open>\<^verbatim>\<open>console.error("Error uploading image:", error)\<close>\<close>

record 'j upload_run =
  requests :: "request list"          \<comment> \<open>the calls of \<^verbatim>\<open>fetch\<close>, in order\<close>
  console :: "'j console_event list"
  rejection :: "js_error option"      \<comment> \<open>the error the returned promise rejects with\<close>

subsection \<open>\<^verbatim>\<open>handleImageUpload\<close>\<close>

text \<open>Lines 179 to 190: the form data, or the exception of \<^verbatim>\<open>base64ToBlob\<close>.\<close>

definition build_form :: "image \<Rightarrow> js_error + form_data" where
  "build_form img =
     (case img of
        StringImage str \<Rightarrow>
          (if take 5 str = ''data:'' then
             (case base64ToBlob str of
                Inl e \<Rightarrow> Inl e
              | Inr blob \<Rightarrow> Inr (append_blob [] ''image'' blob None (Some ''captured.jpg'')))
           else Inr (append_string [] ''imageUrl'' str))
      | BlobImage b \<Rightarrow> Inr (append_blob [] ''image'' b None None)
      | FileImage b name \<Rightarrow> Inr (append_blob [] ''image'' b (Some name) None))"

text \<open>
  \<^verbatim>\<open>window.location.origin\<close> when there is a window, given as
  \<^term>\<open>Some origin\<close>.
\<close>

definition apiEndpoint :: "string option \<Rightarrow> string" where
  "apiEndpoint window_origin =
     (case window_origin of Some origin \<Rightarrow> origin @ ''/api/upload'' | None \<Rightarrow> ''/api/upload'')"

definition response_ok :: "nat \<Rightarrow> bool" where
  "response_ok status = (200 \<le> status \<and> status \<le> 299)"

text \<open>
  Lines 191 to 207.  \<^verbatim>\<open>response.json()\<close> reads the body and parses it; the
  parser \<open>json_parse\<close> of the platform is a parameter, \<^term>\<open>None\<close> being its
  \<^verbatim>\<open>SyntaxError\<close>.
\<close>

definition upload :: "(string \<Rightarrow> 'j option) \<Rightarrow> string option \<Rightarrow> fetch_result \<Rightarrow> form_data
    \<Rightarrow> 'j upload_run" where
  "upload json_parse window_origin net formData =
     (let sent = [\<lparr>req_url = apiEndpoint window_origin, req_method = ''POST'',
                   req_body = formData\<rparr>];
          report = (\<lambda>ev. \<lparr>requests = sent, console = [ev], rejection = None\<rparr>)
      in case net of
           FetchRejected error \<Rightarrow> report (Error_uploading_image error)
         | FetchResponse status body \<Rightarrow>
             if \<not> response_ok status then
               (case body of
                  Inl error \<Rightarrow> report (Error_uploading_image error)
                | Inr errorText \<Rightarrow> report (Upload_error status errorText))
             else
               (case body of
                  Inl error \<Rightarrow> report (Error_uploading_image error)
                | Inr text \<Rightarrow>
                    (case json_parse text of
                       None \<Rightarrow> report (Error_uploading_image SyntaxError)
                     | Some data \<Rightarrow> report (Server_response data))))"

text \<open>
  The whole function.  An exception of \<^verbatim>\<open>base64ToBlob\<close> is raised before the
  \<^verbatim>\<open>try\<close> block, so the promise of the async function rejects with it and
  \<^verbatim>\<open>fetch\<close> is not called.
\<close>

definition handleImageUpload ::
    "(string \<Rightarrow> 'j option) \<Rightarrow> string option \<Rightarrow> fetch_result \<Rightarrow> image \<Rightarrow> 'j upload_run" where
  "handleImageUpload json_parse window_origin net img =
     (case build_form img of
        Inl e \<Rightarrow> \<lparr>requests = [], console = [], rejection = Some e\<rparr>
      | Inr formData \<Rightarrow> upload json_parse window_origin net formData)"

subsection \<open>The page component \<^verbatim>\<open>Analyse\<close>\<close>

text \<open>
  The two state variables of the component, the blob URL store of the document
  (\<^verbatim>\<open>URL.createObjectURL\<close> adds an entry under a fresh URL, only
  \<^verbatim>\<open>URL.revokeObjectURL\<close> would remove one), and the uploads started so far.
  The unique part of a blob URL is modelled by a counter.
\<close>

record 'j analyse_state =
  isMobileDevice :: "bool option"
  screenshot :: "string option"
  object_urls :: "(string \<times> blob) list"
  next_url :: nat
  uploads :: "'j upload_run list"

definition Analyse_init :: "'j analyse_state" where
  "Analyse_init =
     \<lparr>isMobileDevice = None, screenshot = None, object_urls = [], next_url = 0, uploads = []\<rparr>"

fun decimal :: "nat \<Rightarrow> string" where
  "decimal n =
     (if n < 10 then [char_of (48 + n)] else decimal (n div 10) @ [char_of (48 + n mod 10)])"

declare decimal.simps [simp del]

definition createObjectURL :: "blob \<Rightarrow> 'j analyse_state \<Rightarrow> string \<times> 'j analyse_state" where
  "createObjectURL b st =
     (let url = ''blob:'' @ decimal (next_url st)
      in (url, st\<lparr>object_urls := object_urls st @ [(url, b)], next_url := next_url st + 1\<rparr>))"

definition resolvable :: "'j analyse_state \<Rightarrow> string \<Rightarrow> bool" where
  "resolvable st url = (map_of (object_urls st) url \<noteq> None)"

text \<open>
  The test \<^verbatim>\<open>/iPhone|iPad|iPod|Android/i.test(userAgent)\<close>: at some position of the
  string one of the alternatives matches, letters compared without regard to case
  (\<^term>\<open>ascii_upper\<close> gives the code unit of the upper-case form of an ASCII letter).
\<close>

definition ascii_upper :: "char \<Rightarrow> nat" where
  "ascii_upper c = (let n = of_char c :: nat in if 97 \<le> n \<and> n \<le> 122 then n - 32 else n)"

definition matches_here :: "string \<Rightarrow> string \<Rightarrow> bool" where
  "matches_here alt str =
     (length alt \<le> length str \<and> map ascii_upper (take (length alt) str) = map ascii_upper alt)"

fun regex_test :: "string list \<Rightarrow> string \<Rightarrow> bool" where
  "regex_test alts [] = list_ex (\<lambda>alt. matches_here alt []) alts"
| "regex_test alts (c # cs) =
     (list_ex (\<lambda>alt. matches_here alt (c # cs)) alts \<or> regex_test alts cs)"

definition mobile_patterns :: "string list" where
  "mobile_patterns = [''iPhone'', ''iPad'', ''iPod'', ''Android'']"

text \<open>
  The effect of lines 173 to 176, run once after the first render (its dependency list
  is empty); \<^verbatim>\<open>navigator.userAgent || ""\<close>.
\<close>

definition detect_effect :: "string option \<Rightarrow> 'j analyse_state \<Rightarrow> 'j analyse_state" where
  "detect_effect navigator_userAgent st =
     (let userAgent = (case navigator_userAgent of None \<Rightarrow> [] | Some ua \<Rightarrow> ua)
      in st\<lparr>isMobileDevice := Some (regex_test mobile_patterns userAgent)\<rparr>)"

definition handleCapture ::
    "(string \<Rightarrow> 'j option) \<Rightarrow> string option \<Rightarrow> fetch_result \<Rightarrow> image
      \<Rightarrow> 'j analyse_state \<Rightarrow> 'j analyse_state" where
  "handleCapture json_parse window_origin net data st =
     (case data of
        StringImage str \<Rightarrow>
          st\<lparr>screenshot := Some str,
             uploads := uploads st @ [handleImageUpload json_parse window_origin net data]\<rparr>
      | BlobImage b \<Rightarrow>
          (let (previewUrl, st1) = createObjectURL b st
           in st1\<lparr>screenshot := Some previewUrl,
                  uploads := uploads st1 @ [handleImageUpload json_parse window_origin net data]\<rparr>)
      | FileImage b name \<Rightarrow>
          (let (previewUrl, st1) = createObjectURL b st
           in st1\<lparr>screenshot := Some previewUrl,
                  uploads := uploads st1 @ [handleImageUpload json_parse window_origin net data]\<rparr>))"

text \<open>\<^verbatim>\<open>e.target.files?.[0]\<close> is \<^term>\<open>None\<close> when the picker was cancelled.\<close>

definition handleMobileFile ::
    "(string \<Rightarrow> 'j option) \<Rightarrow> string option \<Rightarrow> fetch_result \<Rightarrow> (blob \<times> string) option
      \<Rightarrow> 'j analyse_state \<Rightarrow> 'j analyse_state" where
  "handleMobileFile json_parse window_origin net file st =
     (case file of
        None \<Rightarrow> st
      | Some (b, name) \<Rightarrow>
          (let (previewUrl, st1) = createObjectURL b st
           in st1\<lparr>screenshot := Some previewUrl,
                  uploads := uploads st1 @
                    [handleImageUpload json_parse window_origin net (FileImage b name)]\<rparr>))"

text \<open>
  What the component renders: the loading view alone while \<^verbatim>\<open>isMobileDevice\<close> is
  \<^verbatim>\<open>null\<close>, else the capture widgets of the device and, when
  \<^verbatim>\<open>screenshot\<close> is a non-empty string, the captured image.
\<close>

datatype widget = MobileCameraWidget | MobileFileInput | DesktopCameraWidget

record view =
  loading :: bool
  widgets :: "widget list"
  captured_image :: "string option"

definition render :: "'j analyse_state \<Rightarrow> view" where
  "render st =
     (case isMobileDevice st of
        None \<Rightarrow> \<lparr>loading = True, widgets = [], captured_image = None\<rparr>
      | Some mobile \<Rightarrow>
          \<lparr>loading = False,
           widgets = (if mobile then [MobileCameraWidget, MobileFileInput]
                      else [DesktopCameraWidget]),
           captured_image =
             (case screenshot st of
                None \<Rightarrow> None
              | Some src \<Rightarrow> if src = [] then None else Some src)\<rparr>)"

text \<open>The events of the page after the first render, each with what the network answers.\<close>

datatype page_event =
    Capture image fetch_result
  | MobileFile "(blob \<times> string) option" fetch_result

definition page_step ::
    "(string \<Rightarrow> 'j option) \<Rightarrow> string option \<Rightarrow> 'j analyse_state \<Rightarrow> page_event
      \<Rightarrow> 'j analyse_state" where
  "page_step json_parse window_origin st ev =
     (case ev of
        Capture data net \<Rightarrow> handleCapture json_parse window_origin net data st
      | MobileFile file net \<Rightarrow> handleMobileFile json_parse window_origin net file st)"

definition page_run ::
    "(string \<Rightarrow> 'j option) \<Rightarrow> string option \<Rightarrow> 'j analyse_state \<Rightarrow> page_event list
      \<Rightarrow> 'j analyse_state" where
  "page_run json_parse window_origin st evs = foldl (page_step json_parse window_origin) st evs"

text \<open>
  A session of the page: the first render with the initial state, then the effect, then
  the events of the user.
\<close>

definition Analyse_session ::
    "(string \<Rightarrow> 'j option) \<Rightarrow> string option \<Rightarrow> string option \<Rightarrow> page_event list
      \<Rightarrow> 'j analyse_state" where
  "Analyse_session json_parse window_origin navigator_userAgent evs =
     page_run json_parse window_origin (detect_effect navigator_userAgent Analyse_init) evs"

text \<open>JSON values, for the parsed body of a response.\<close>

datatype json = JNull | JBool bool | JNumber int | JString string | JArray "json list"
  | JObject "(string \<times> json) list"

section \<open>Properties\<close>

subsection \<open>The base64 alphabet and the byte loop\<close>

lemma base64_index_char: "v < 64 \<Longrightarrow> base64_index (base64_char v) = Some v"
  unfolding base64_index_def base64_char_def Let_def
  by simp arith

lemma char_of_eqI: "of_char c = (n::nat) \<Longrightarrow> char_of n = c"
  by (metis char_of_char)

lemma base64_char_index: "base64_index c = Some v \<Longrightarrow> base64_char v = c \<and> v < 64"
  unfolding base64_index_def base64_char_def Let_def
  by (auto split: if_splits intro!: char_of_eqI)

lemma sextet_lt: "sextet c < 64"
  by (cases "base64_index c") (auto simp: sextet_def dest: base64_char_index)

lemma base64_char_sextet: "base64_index c \<noteq> None \<Longrightarrow> base64_char (sextet c) = c"
  by (auto simp: sextet_def dest: base64_char_index)

lemma pad_not_index: "base64_index CHR ''='' = None"
  by (simp add: base64_index_def)

lemma ws_not_index: "is_ascii_whitespace c \<Longrightarrow> base64_index c = None"
  by (auto simp: is_ascii_whitespace_def base64_index_def)

lemma ws_not_pad: "\<not> is_ascii_whitespace CHR ''=''"
  by (simp add: is_ascii_whitespace_def)

lemma fill_bytes_eq:
  "length ia = length bs \<Longrightarrow> i \<le> length bs \<Longrightarrow>
   fill_bytes bs i ia = take i ia @ map (\<lambda>c. to_uint8 (of_char c)) (drop i bs)"
proof (induction bs i ia rule: fill_bytes.induct)
  case (1 bs i ia)
  show ?case
  proof (cases "i < length bs")
    case True
    with 1 show ?thesis
      by (subst fill_bytes.simps)
         (simp add: take_Suc_conv_app_nth Cons_nth_drop_Suc [symmetric])
  next
    case False
    with 1 show ?thesis
      by (subst fill_bytes.simps) simp
  qed
qed

lemma fill_bytes_all:
  "fill_bytes bs 0 (replicate (length bs) 0) = map (\<lambda>c. to_uint8 (of_char c)) bs"
  using fill_bytes_eq [of "replicate (length bs) 0" bs 0] by simp

subsection \<open>Decoding canonical base64 and encoding it again\<close>

lemma remove_padding_Cons:
  "2 \<le> length xs \<Longrightarrow> remove_padding (x # xs) = x # remove_padding xs"
  by (cases xs rule: remove_padding.cases) auto

lemma canonical_length: "canonical_base64 s \<Longrightarrow> length s mod 4 = 0"
proof (induction s rule: canonical_base64.induct)
  case (3 a b c d v va)
  then have "length (v # va) mod 4 = 0" by simp
  then show ?case by (simp add: mod_Suc)
qed auto

lemma canonical_ge4: "canonical_base64 s \<Longrightarrow> s \<noteq> [] \<Longrightarrow> 4 \<le> length s"
  by (induction s rule: canonical_base64.induct) auto

lemma canonical_no_ws:
  "canonical_base64 s \<Longrightarrow> filter (\<lambda>c. \<not> is_ascii_whitespace c) s = s"
  by (induction s rule: canonical_base64.induct)
     (auto simp: ws_not_pad dest: ws_not_index split: if_splits)

lemma unat_byte: "n < 256 \<Longrightarrow> unat (to_uint8 n) = n"
  by (simp add: unat_of_nat to_uint8_def)

lemma byte1:
  assumes "a < 64" "b < 64"
  shows "unat (to_uint8 (a * 4 + b div 16)) = a * 4 + b div 16"
  using assms by (intro unat_byte) arith

lemma byte2:
  assumes "c < 64"
  shows "unat (to_uint8 ((b mod 16) * 16 + c div 4)) = (b mod 16) * 16 + c div 4"
  using assms by (intro unat_byte) arith

lemma byte3:
  assumes "d < 64"
  shows "unat (to_uint8 ((c mod 4) * 64 + d)) = (c mod 4) * 64 + d"
  using assms by (intro unat_byte) arith

lemma group_arith1:
  fixes a b :: nat
  assumes "b < 64"
  shows "(a * 4 + b div 16) div 4 = a" and "(a * 4 + b div 16) mod 4 = b div 16"
  using assms by simp_all

lemma group_arith2:
  fixes b c :: nat
  assumes "c < 64"
  shows "((b mod 16) * 16 + c div 4) div 16 = b mod 16"
    and "((b mod 16) * 16 + c div 4) mod 16 = c div 4"
  using assms by simp_all

lemma group_arith3:
  fixes c d :: nat
  assumes "d < 64"
  shows "((c mod 4) * 64 + d) div 64 = c mod 4" and "((c mod 4) * 64 + d) mod 64 = d"
  using assms by simp_all

lemma div_mod_16: "(b::nat) div 16 * 16 + b mod 16 = b"
  and div_mod_4: "(c::nat) div 4 * 4 + c mod 4 = c"
  by simp_all

lemma enc_dec_group:
  assumes "a < 64" "b < 64" "c < 64" "d < 64"
  shows "base64_encode (map to_uint8 (decode_sextets (a # b # c # d # rest))) =
         base64_char a # base64_char b # base64_char c # base64_char d #
         base64_encode (map to_uint8 (decode_sextets rest))"
  using assms
  by (simp add: byte1 byte2 byte3 group_arith1 group_arith2 group_arith3 div_mod_16 div_mod_4)

lemma enc_dec_3:
  assumes "a < 64" "b < 64" "c < 64" "c mod 4 = 0"
  shows "base64_encode (map to_uint8 (decode_sextets [a, b, c])) =
         [base64_char a, base64_char b, base64_char c, CHR ''='']"
proof -
  have "c div 4 * 4 = c" using assms(4) by presburger
  then show ?thesis using assms
    by (simp add: byte1 byte2 group_arith1 group_arith2 div_mod_16)
qed

lemma enc_dec_2:
  assumes "a < 64" "b < 64" "b mod 16 = 0"
  shows "base64_encode (map to_uint8 (decode_sextets [a, b])) =
         [base64_char a, base64_char b, CHR ''='', CHR ''='']"
proof -
  have "b div 16 * 16 = b" using assms(3) by presburger
  then show ?thesis using assms
    by (simp add: byte1 group_arith1)
qed

lemma last_pad2:
  assumes ab: "base64_index a \<noteq> None" "base64_index b \<noteq> None" and z: "sextet b mod 16 = 0"
  shows "base64_encode (decoded [a, b, CHR ''='', CHR ''='']) = [a, b, CHR ''='', CHR ''='']"
proof -
  have h: "decoded [a, b, CHR ''='', CHR ''=''] = map to_uint8 (decode_sextets [sextet a, sextet b])"
    by (simp add: decoded_def)
  show ?thesis
    by (simp only: h enc_dec_2 [OF sextet_lt sextet_lt z] base64_char_sextet [OF ab(1)]
          base64_char_sextet [OF ab(2)])
qed

lemma last_pad1:
  assumes ab: "base64_index a \<noteq> None" "base64_index b \<noteq> None" "base64_index c \<noteq> None"
    and z: "sextet c mod 4 = 0"
  shows "base64_encode (decoded [a, b, c, CHR ''='']) = [a, b, c, CHR ''='']"
proof -
  have "c \<noteq> CHR ''=''" using ab(3) pad_not_index by auto
  then have h: "decoded [a, b, c, CHR ''=''] =
      map to_uint8 (decode_sextets [sextet a, sextet b, sextet c])"
    by (simp add: decoded_def)
  show ?thesis
    by (simp only: h enc_dec_3 [OF sextet_lt sextet_lt sextet_lt z] base64_char_sextet [OF ab(1)]
          base64_char_sextet [OF ab(2)] base64_char_sextet [OF ab(3)])
qed

lemma full_group:
  assumes ab: "base64_index a \<noteq> None" "base64_index b \<noteq> None" "base64_index c \<noteq> None"
      "base64_index d \<noteq> None"
    and rp: "remove_padding (a # b # c # d # rest) = a # b # c # d # remove_padding rest"
  shows "base64_encode (decoded (a # b # c # d # rest)) =
         a # b # c # d # base64_encode (decoded rest)"
proof -
  have h: "decoded (a # b # c # d # rest) =
      map to_uint8 (decode_sextets (sextet a # sextet b # sextet c # sextet d #
        map sextet (remove_padding rest)))"
    unfolding decoded_def rp by (simp only: list.map)
  show ?thesis
    unfolding h
    by (simp only: enc_dec_group [OF sextet_lt sextet_lt sextet_lt sextet_lt]
          base64_char_sextet [OF ab(1)] base64_char_sextet [OF ab(2)]
          base64_char_sextet [OF ab(3)] base64_char_sextet [OF ab(4)] decoded_def)
qed

lemma canonical_roundtrip:
  "canonical_base64 s \<Longrightarrow>
     length (remove_padding s) mod 4 \<noteq> 1 \<and>
     \<not> list_ex (\<lambda>c. base64_index c = None) (remove_padding s) \<and>
     base64_encode (decoded s) = s"
proof (induction s rule: canonical_base64.induct)
  case 1
  then show ?case by (simp add: decoded_def)
next
  case (2 a b c d)
  then have ab: "base64_index a \<noteq> None" "base64_index b \<noteq> None" by simp_all
  show ?case
  proof (cases "c = CHR ''=''")
    case True
    with 2 have d: "d = CHR ''=''" and z: "sextet b mod 16 = 0" by simp_all
    show ?thesis unfolding True d using ab last_pad2 [OF ab z] by simp
  next
    case False
    with 2 have c: "base64_index c \<noteq> None" by simp
    show ?thesis
    proof (cases "d = CHR ''=''")
      case True
      with 2 False have z: "sextet c mod 4 = 0" by simp
      show ?thesis unfolding True using ab c False last_pad1 [OF ab c z] by simp
    next
      case d: False
      with 2 False have dd: "base64_index d \<noteq> None" by simp
      have rp: "remove_padding (a # b # c # d # []) = a # b # c # d # remove_padding []"
        using d by simp
      have "base64_encode (decoded [a, b, c, d]) = [a, b, c, d]"
        unfolding full_group [OF ab c dd rp] by (simp add: decoded_def)
      then show ?thesis using ab c dd False d by simp
    qed
  qed
next
  case (3 a b c d v va)
  then have idx: "base64_index a \<noteq> None" "base64_index b \<noteq> None"
      "base64_index c \<noteq> None" "base64_index d \<noteq> None"
    and rest: "canonical_base64 (v # va)" by simp_all
  from rest have len: "4 \<le> length (v # va)" by (intro canonical_ge4) auto
  then have rp: "remove_padding (a # b # c # d # v # va) = a # b # c # d # remove_padding (v # va)"
    by (simp add: remove_padding_Cons)
  from 3 rest have ih: "length (remove_padding (v # va)) mod 4 \<noteq> 1"
      "\<not> list_ex (\<lambda>c. base64_index c = None) (remove_padding (v # va))"
      "base64_encode (decoded (v # va)) = v # va" by simp_all
  have l: "length (remove_padding (a # b # c # d # v # va)) mod 4 \<noteq> 1"
    unfolding rp using ih(1) by (simp add: mod_Suc)
  have e: "\<not> list_ex (\<lambda>c. base64_index c = None) (remove_padding (a # b # c # d # v # va))"
    unfolding rp using ih(2) idx by simp
  have "base64_encode (decoded (a # b # c # d # v # va)) = a # b # c # d # v # va"
    unfolding full_group [OF idx rp] ih(3) ..
  with l e show ?case by blast
qed simp_all

lemma atob_canonical:
  assumes "canonical_base64 s"
  shows "atob s = Inr (map char_of (decode_sextets (map sextet (remove_padding s))))"
  using canonical_roundtrip [OF assms]
  by (simp add: atob_def Let_def canonical_no_ws [OF assms] canonical_length [OF assms])


subsection \<open>Splitting and matching the prefix\<close>

lemma split_on_no_sep: "s \<notin> set xs \<Longrightarrow> split_on s xs = [xs]"
  by (induction xs) auto

lemma split_on_first:
  "s \<notin> set pre \<Longrightarrow> split_on s (pre @ s # rest) = pre # split_on s rest"
  by (induction pre) auto

lemma split_on_two:
  "s \<notin> set pre \<Longrightarrow> s \<notin> set rest \<Longrightarrow> split_on s (pre @ s # rest) = [pre, rest]"
  by (simp add: split_on_first split_on_no_sep)

lemma split_on_not_Nil: "split_on s xs \<noteq> []"
  by (induction xs) (auto split: list.splits)

lemma lazy_until_semicolon_found:
  "CHR '';'' \<notin> set m \<Longrightarrow> \<not> list_ex is_line_terminator m \<Longrightarrow>
   lazy_until_semicolon (m @ CHR '';'' # rest) = Some m"
  by (induction m) auto

lemma match_colon_semicolon_found:
  "CHR '':'' \<notin> set pre \<Longrightarrow> CHR '';'' \<notin> set m \<Longrightarrow> \<not> list_ex is_line_terminator m \<Longrightarrow>
   match_colon_semicolon (pre @ CHR '':'' # m @ CHR '';'' # rest) = Some m"
  by (induction pre) (auto simp: lazy_until_semicolon_found)

lemma to_uint8_mod: "to_uint8 (n mod 256) = to_uint8 n"
  by (simp add: to_uint8_def word_of_nat_eq_iff take_bit_eq_mod)

lemma canonical_no_comma: "canonical_base64 s \<Longrightarrow> CHR '','' \<notin> set s"
  by (induction s rule: canonical_base64.induct)
     (auto simp: base64_index_def split: if_splits)

subsection \<open>A well-formed data URI\<close>

lemma base64ToBlob_well_formed:
  assumes "canonical_base64 rest"
    and "CHR '';'' \<notin> set mime" and "CHR '','' \<notin> set mime"
    and "\<not> list_ex is_line_terminator mime"
  shows "part0 (split_on CHR '','' (''data:'' @ mime @ '';base64,'' @ rest)) = ''data:'' @ mime @ '';base64''
       \<and> match_colon_semicolon (''data:'' @ mime @ '';base64'') = Some mime
       \<and> base64ToBlob (''data:'' @ mime @ '';base64,'' @ rest) = Inr (new_Blob (decoded rest) mime)
       \<and> blob_bytes (new_Blob (decoded rest) mime) = decoded rest
       \<and> base64_encode (decoded rest) = rest"
proof -
  let ?pre = "''data:'' @ mime @ '';base64''"
  have uri: "''data:'' @ mime @ '';base64,'' @ rest = ?pre @ CHR '','' # rest" by simp
  have "CHR '','' \<notin> set ?pre" using assms(3) by simp
  then have parts: "split_on CHR '','' (?pre @ CHR '','' # rest) = [?pre, rest]"
    using canonical_no_comma [OF assms(1)] by (intro split_on_two)
  have m: "match_colon_semicolon ?pre = Some mime"
    using match_colon_semicolon_found [of "''data''" mime "''base64''"] assms(2,4) by simp
  have bytes: "fill_bytes (map char_of (decode_sextets (map sextet (remove_padding rest)))) 0
       (replicate (length (map char_of (decode_sextets (map sextet (remove_padding rest))) :: string)) 0)
     = decoded rest"
    unfolding fill_bytes_all by (simp add: decoded_def to_uint8_mod)
  have p1: "part1 [?pre, rest] = rest" by (simp add: part1_def)
  have p0: "part0 [?pre, rest] = ?pre" by (simp add: part0_def)
  have b: "base64ToBlob (?pre @ CHR '','' # rest) = Inr (new_Blob (decoded rest) mime)"
    unfolding base64ToBlob_def Let_def parts p0 p1 atob_canonical [OF assms(1)] m
    by (simp only: sum.case option.case bytes)
  show ?thesis
    unfolding uri parts p0 using m b canonical_roundtrip [OF assms(1)]
    by (simp add: new_Blob_def)
qed

lemma atob_error: "atob t = Inl e \<Longrightarrow> e = InvalidCharacterError"
  by (auto simp: atob_def Let_def split: if_splits)

lemma base64ToBlob_error:
  "base64ToBlob s =
     (case atob (part1 (split_on CHR '','' s)) of
        Inl e \<Rightarrow> Inl InvalidCharacterError
      | Inr bs \<Rightarrow>
          (case match_colon_semicolon (part0 (split_on CHR '','' s)) of
             None \<Rightarrow> Inl TypeError
           | Some m \<Rightarrow> Inr (new_Blob (map (\<lambda>c. to_uint8 (of_char c)) bs) m)))"
  by (auto simp: base64ToBlob_def Let_def fill_bytes_all dest: atob_error
           split: sum.splits option.splits)

lemma build_form_well_formed:
  assumes "canonical_base64 rest"
    and "CHR '';'' \<notin> set mime" and "CHR '','' \<notin> set mime"
    and "\<not> list_ex is_line_terminator mime"
  shows "build_form (StringImage (''data:'' @ mime @ '';base64,'' @ rest)) =
         Inr [(''image'', FormFile (new_Blob (decoded rest) mime) ''captured.jpg'')]"
  using base64ToBlob_well_formed [OF assms]
  by (simp add: build_form_def append_blob_def)

lemma decoded_atob:
  assumes "canonical_base64 rest"
  shows "\<exists>byteString. atob rest = Inr byteString \<and> length (decoded rest) = length byteString
          \<and> decoded rest = map (\<lambda>c. to_uint8 (of_char c)) byteString"
  by (simp add: atob_canonical [OF assms] decoded_def to_uint8_mod)

subsection \<open>The handlers of the page\<close>

lemma createObjectURL_simps:
  "fst (createObjectURL b st) = ''blob:'' @ decimal (next_url st)"
  "snd (createObjectURL b st) =
     st\<lparr>object_urls := object_urls st @ [(''blob:'' @ decimal (next_url st), b)],
        next_url := next_url st + 1\<rparr>"
  by (simp_all add: createObjectURL_def Let_def)

lemma handleCapture_simps:
  "handleCapture jp wo net (StringImage str) st =
     st\<lparr>screenshot := Some str,
        uploads := uploads st @ [handleImageUpload jp wo net (StringImage str)]\<rparr>"
  "handleCapture jp wo net (BlobImage b) st =
     st\<lparr>object_urls := object_urls st @ [(''blob:'' @ decimal (next_url st), b)],
        next_url := next_url st + 1,
        screenshot := Some (''blob:'' @ decimal (next_url st)),
        uploads := uploads st @ [handleImageUpload jp wo net (BlobImage b)]\<rparr>"
  "handleCapture jp wo net (FileImage b name) st =
     st\<lparr>object_urls := object_urls st @ [(''blob:'' @ decimal (next_url st), b)],
        next_url := next_url st + 1,
        screenshot := Some (''blob:'' @ decimal (next_url st)),
        uploads := uploads st @ [handleImageUpload jp wo net (FileImage b name)]\<rparr>"
  by (simp_all add: handleCapture_def createObjectURL_def Let_def)

lemma handleMobileFile_simps:
  "handleMobileFile jp wo net None st = st"
  "handleMobileFile jp wo net (Some (b, name)) st =
     st\<lparr>object_urls := object_urls st @ [(''blob:'' @ decimal (next_url st), b)],
        next_url := next_url st + 1,
        screenshot := Some (''blob:'' @ decimal (next_url st)),
        uploads := uploads st @ [handleImageUpload jp wo net (FileImage b name)]\<rparr>"
  by (simp_all add: handleMobileFile_def createObjectURL_def Let_def)

lemma page_step_isMobileDevice:
  "isMobileDevice (page_step jp wo st ev) = isMobileDevice st"
  by (cases ev; cases "case ev of Capture d _ \<Rightarrow> d"; cases "case ev of MobileFile f _ \<Rightarrow> f")
     (auto simp: page_step_def handleCapture_simps handleMobileFile_simps)

lemma page_run_isMobileDevice:
  "isMobileDevice (page_run jp wo st evs) = isMobileDevice st"
  unfolding page_run_def
  by (induction evs arbitrary: st) (simp_all add: page_step_isMobileDevice)

lemma page_step_resolvable:
  "resolvable st url \<Longrightarrow> resolvable (page_step jp wo st ev) url"
  by (cases ev; cases "case ev of Capture d _ \<Rightarrow> d"; cases "case ev of MobileFile f _ \<Rightarrow> f")
     (auto simp: page_step_def handleCapture_simps handleMobileFile_simps resolvable_def)

lemma page_run_resolvable:
  "resolvable st url \<Longrightarrow> resolvable (page_run jp wo st evs) url"
  unfolding page_run_def
  by (induction evs arbitrary: st) (simp_all add: page_step_resolvable)


lemma digit_chars: "char_of (48::nat) = CHR ''0''" "char_of (49::nat) = CHR ''1''"
  by (rule char_of_eqI, simp)+

lemma decimal_digits: "decimal 0 = ''0''" "decimal 1 = ''1''" "decimal (Suc 0) = ''1''"
  by (simp_all add: decimal.simps digit_chars)

subsection \<open>The test of the user agent\<close>

lemma matches_here_iff:
  "matches_here alt str \<longleftrightarrow> (\<exists>w post. str = w @ post \<and> map ascii_upper w = map ascii_upper alt)"
proof
  assume "matches_here alt str"
  then have "str = take (length alt) str @ drop (length alt) str
      \<and> map ascii_upper (take (length alt) str) = map ascii_upper alt"
    by (simp add: matches_here_def)
  then show "\<exists>w post. str = w @ post \<and> map ascii_upper w = map ascii_upper alt" by blast
next
  assume "\<exists>w post. str = w @ post \<and> map ascii_upper w = map ascii_upper alt"
  then obtain w post where s: "str = w @ post" and m: "map ascii_upper w = map ascii_upper alt"
    by blast
  from m have "length w = length alt" by (rule map_eq_imp_length_eq)
  with s m show "matches_here alt str" by (simp add: matches_here_def)
qed

lemma regex_test_suffix:
  "regex_test alts s \<longleftrightarrow> (\<exists>pre rest. s = pre @ rest \<and> list_ex (\<lambda>alt. matches_here alt rest) alts)"
proof (induction s)
  case Nil
  then show ?case by simp
next
  case (Cons c cs)
  show ?case
  proof
    assume "regex_test alts (c # cs)"
    then consider "list_ex (\<lambda>alt. matches_here alt (c # cs)) alts" | "regex_test alts cs" by auto
    then show "\<exists>pre rest. c # cs = pre @ rest \<and> list_ex (\<lambda>alt. matches_here alt rest) alts"
    proof cases
      case 1
      then have "c # cs = [] @ (c # cs) \<and> list_ex (\<lambda>alt. matches_here alt (c # cs)) alts" by simp
      then show ?thesis by blast
    next
      case 2
      with Cons obtain pre rest where "cs = pre @ rest" "list_ex (\<lambda>alt. matches_here alt rest) alts"
        by blast
      then have "c # cs = (c # pre) @ rest \<and> list_ex (\<lambda>alt. matches_here alt rest) alts" by simp
      then show ?thesis by blast
    qed
  next
    assume "\<exists>pre rest. c # cs = pre @ rest \<and> list_ex (\<lambda>alt. matches_here alt rest) alts"
    then obtain pre rest where e: "c # cs = pre @ rest"
      and m: "list_ex (\<lambda>alt. matches_here alt rest) alts" by blast
    show "regex_test alts (c # cs)"
    proof (cases pre)
      case Nil
      with e have "rest = c # cs" by simp
      with m show ?thesis by simp
    next
      case (Cons p ps)
      with e have "cs = ps @ rest" by simp
      with m Cons.IH have "regex_test alts cs" by blast
      then show ?thesis by simp
    qed
  qed
qed

lemma regex_test_iff:
  "regex_test alts s \<longleftrightarrow>
     (\<exists>pre w post alt. s = pre @ w @ post \<and> alt \<in> set alts \<and> map ascii_upper w = map ascii_upper alt)"
  unfolding regex_test_suffix list_ex_iff matches_here_iff by blast

subsection \<open>The camera stream when runs settle before the next switch\<close>

lemma one_stream_mount: "one_stream MobileCamera_mount"
  by (simp add: one_stream_def MobileCamera_mount_def startCamera_def)

lemma one_stream_length: "one_stream st \<Longrightarrow> length (live st) \<le> 1"
  by (auto simp: one_stream_def split: option.splits)

lemma one_streamI:
  assumes "runs st = old @ [cur]" "list_all (\<lambda>r. \<not> pending r) old"
    "pending cur \<longrightarrow> activeStream cur = None \<and> mounted st"
    "live st = (if mounted st
                then (case activeStream cur of None \<Rightarrow> [] | Some s \<Rightarrow> [(s, run_facing cur)])
                else [])"
  shows "one_stream st"
  unfolding one_stream_def using assms by blast

lemma cleanup_snoc:
  "runs st = old @ [cur] \<Longrightarrow>
   cleanup st =
     (case activeStream cur of
        None \<Rightarrow> st
      | Some s \<Rightarrow> st\<lparr>live := filter (\<lambda>(t, f). t \<noteq> s) (live st)\<rparr>)"
  by (cases old) (simp_all add: cleanup_def)

lemma nth_settled: 
  "list_all (\<lambda>r. \<not> pending r) old \<Longrightarrow> k < length (old @ [cur]) \<Longrightarrow> pending ((old @ [cur]) ! k) \<Longrightarrow> k = length old"
  by (cases "k < length old") (auto simp: nth_append list_all_length)

lemma one_stream_step:
  assumes "one_stream st"
    and "ev = SwitchCamera \<or> ev = Unmount \<Longrightarrow> \<not> pending (last (runs st))"
  shows "one_stream (camera_step st ev)"
proof -
  from assms(1) obtain old cur where r: "runs st = old @ [cur]"
    and o: "list_all (\<lambda>r. \<not> pending r) old"
    and p: "pending cur \<longrightarrow> activeStream cur = None \<and> mounted st"
    and l: "live st = (if mounted st
                   then (case activeStream cur of None \<Rightarrow> [] | Some s \<Rightarrow> [(s, run_facing cur)])
                   else [])"
    unfolding one_stream_def by blast
  show ?thesis
  proof (cases ev)
    case SwitchCamera
    with assms(2) r have np: "\<not> pending cur" by simp
    show ?thesis
    proof (cases "mounted st")
      case True
      have rr: "runs (camera_step st ev) = (old @ [cur]) @ [\<lparr>run_facing = toggleCamera (facingMode st), activeStream = None, pending = True\<rparr>]"
        using True r by (simp add: SwitchCamera camera_step_def startCamera_def cleanup_snoc [of _ old cur] split: option.splits)
      have ll: "live (camera_step st ev) = []"
        using True r l by (auto simp: SwitchCamera camera_step_def startCamera_def cleanup_snoc [of _ old cur] split: option.splits)
      have mm: "mounted (camera_step st ev)"
        using True r by (simp add: SwitchCamera camera_step_def startCamera_def cleanup_snoc [of _ old cur] split: option.splits)
      show ?thesis
        using o np ll mm by (intro one_streamI [OF rr]) simp_all
    next
      case False
      then have "camera_step st ev = st" by (simp add: SwitchCamera camera_step_def)
      with assms(1) show ?thesis by simp
    qed
  next
    case (Granted k)
    show ?thesis
    proof (cases "k < length (runs st) \<and> pending (runs st ! k)")
      case True
      then have k: "k = length old" using nth_settled [OF o, of k cur] r by simp
      then have pc: "pending cur" using True r by simp
      with p have m: "mounted st" and a: "activeStream cur = None" by simp_all
      have rr: "runs (camera_step st ev) = old @ [cur\<lparr>activeStream := Some (next_stream st), pending := False\<rparr>]"
        using True m r k by (simp add: Granted camera_step_def Let_def)
      have ll: "live (camera_step st ev) = [(next_stream st, run_facing cur)]"
        using True m r k l a by (simp add: Granted camera_step_def Let_def)
      have mm: "mounted (camera_step st ev)"
        using True m by (simp add: Granted camera_step_def Let_def)
      show ?thesis
        using o ll mm by (intro one_streamI [OF rr]) simp_all
    next
      case False
      then have "camera_step st ev = st" by (auto simp: Granted camera_step_def)
      with assms(1) show ?thesis by simp
    qed
  next
    case (Denied k)
    show ?thesis
    proof (cases "k < length (runs st) \<and> pending (runs st ! k)")
      case True
      then have k: "k = length old" using nth_settled [OF o, of k cur] r by simp
      then have pc: "pending cur" using True r by simp
      with p have m: "mounted st" and a: "activeStream cur = None" by simp_all
      have rr: "runs (camera_step st ev) = old @ [cur\<lparr>pending := False\<rparr>]"
        using True r k by (simp add: Denied camera_step_def)
      have ll: "live (camera_step st ev) = []"
        using True m r k l a by (simp add: Denied camera_step_def)
      have mm: "mounted (camera_step st ev)"
        using True m by (simp add: Denied camera_step_def)
      show ?thesis
        using o a ll mm by (intro one_streamI [OF rr]) simp_all
    next
      case False
      then have "camera_step st ev = st" by (auto simp: Denied camera_step_def)
      with assms(1) show ?thesis by simp
    qed
  next
    case Unmount
    with assms(2) r have np: "\<not> pending cur" by simp
    show ?thesis
    proof (cases "mounted st")
      case True
      have rr: "runs (camera_step st ev) = old @ [cur]"
        using True r by (simp add: Unmount camera_step_def cleanup_snoc [of _ old cur] split: option.splits)
      have mm: "\<not> mounted (camera_step st ev)"
        using True r by (simp add: Unmount camera_step_def cleanup_snoc [of _ old cur] split: option.splits)
      have ll: "live (camera_step st ev) = []"
        using True r l by (auto simp: Unmount camera_step_def cleanup_snoc [of _ old cur] split: option.splits)
      show ?thesis
        using o np ll mm by (intro one_streamI [OF rr]) simp_all
    next
      case False
      then have "camera_step st ev = st" by (simp add: Unmount camera_step_def)
      with assms(1) show ?thesis by simp
    qed
  qed
qed

lemma one_stream_run:
  "one_stream st \<Longrightarrow> settled_before_switch st evs \<Longrightarrow> one_stream (camera_run st evs)"
proof (induction evs arbitrary: st)
  case Nil
  then show ?case by (simp add: camera_run_def)
next
  case (Cons ev evs)
  from Cons.prems have "one_stream (camera_step st ev)"
    by (intro one_stream_step) auto
  moreover from Cons.prems have "settled_before_switch (camera_step st ev) evs" by simp
  ultimately have "one_stream (camera_run (camera_step st ev) evs)" by (rule Cons.IH)
  then show ?case by (simp add: camera_run_def)
qed

lemma single_stream_when_settled:
  "settled_before_switch MobileCamera_mount evs \<Longrightarrow>
   length (live (camera_run MobileCamera_mount evs)) \<le> 1"
  by (intro one_stream_length one_stream_run one_stream_mount)

lemma render_cong:
  "isMobileDevice a = isMobileDevice b \<Longrightarrow> screenshot a = screenshot b \<Longrightarrow> render a = render b"
  by (simp add: render_def split: option.splits)

subsection \<open>The claims\<close>

text \<open>
  C1.  For a well-formed data URI, that is \<^verbatim>\<open>data:<mime>;base64,<text>\<close> with
  a MIME type free of \<^verbatim>\<open>;\<close>, \<^verbatim>\<open>,\<close> and line terminators and a
  canonical base64 text, normalization is lossless: the part before the comma is the
  prefix, the extracted MIME type is the substring between its \<^verbatim>\<open>:\<close> and
  \<^verbatim>\<open>;\<close>, the blob holds the decoded bytes unchanged, and encoding these bytes as
  base64 gives back the text after the comma exactly.
\<close>

theorem base64ToBlob_lossless:
  assumes "canonical_base64 rest"
    and "CHR '';'' \<notin> set mime" and "CHR '','' \<notin> set mime"
    and "\<not> list_ex is_line_terminator mime"
  shows "part0 (split_on CHR '','' (''data:'' @ mime @ '';base64,'' @ rest)) = ''data:'' @ mime @ '';base64''
       \<and> match_colon_semicolon (''data:'' @ mime @ '';base64'') = Some mime
       \<and> base64ToBlob (''data:'' @ mime @ '';base64,'' @ rest) = Inr (new_Blob (decoded rest) mime)
       \<and> blob_bytes (new_Blob (decoded rest) mime) = decoded rest
       \<and> base64_encode (decoded rest) = rest"
  using assms by (rule base64ToBlob_well_formed)

theorem base64ToBlob_lossless_witness:
  "canonical_base64 ''/9j/4AAQSkZJRg==''
   \<and> base64ToBlob ''data:image/jpeg;base64,/9j/4AAQSkZJRg=='' =
       Inr \<lparr>blob_bytes = [255, 216, 255, 224, 0, 16, 74, 70, 73, 70], blob_type = ''image/jpeg''\<rparr>
   \<and> base64_encode [255, 216, 255, 224, 0, 16, 74, 70, 73, 70] = ''/9j/4AAQSkZJRg=='' 
   \<and> match_colon_semicolon ''data:image/jpeg;base64'' = Some ''image/jpeg''"
proof -
  have c: "canonical_base64 ''/9j/4AAQSkZJRg==''"
    by (simp add: base64_index_def sextet_def)
  have d: "decoded ''/9j/4AAQSkZJRg=='' = [255, 216, 255, 224, 0, 16, 74, 70, 73, 70]"
    by (simp add: decoded_def base64_index_def sextet_def to_uint8_def)
  have t: "new_Blob [255, 216, 255, 224, 0, 16, 74, 70, 73, 70] ''image/jpeg'' =
     \<lparr>blob_bytes = [255, 216, 255, 224, 0, 16, 74, 70, 73, 70], blob_type = ''image/jpeg''\<rparr>"
    by (simp add: new_Blob_def ascii_lower_def)
  show ?thesis
    using base64ToBlob_lossless [of "''/9j/4AAQSkZJRg==''" "''image/jpeg''"] c
    by (simp add: d t is_line_terminator_def)
qed



text \<open>
  \<^verbatim>\<open>atob\<close> is forgiving: it also accepts text that is not canonical, for
  which encoding the bytes gives the canonical text, not the original.
\<close>

lemma atob_unpadded_example:
  "atob ''YQ'' = Inr [char_of (97::nat)] \<and> base64_encode (decoded ''YQ'') = ''YQ==''"
proof -
  have c: "base64_char 24 = CHR ''Y''" "base64_char 16 = CHR ''Q''"
    unfolding base64_char_def by (rule char_of_eqI, simp)+
  have d: "decoded ''YQ'' = [97]"
    by (simp add: decoded_def base64_index_def sextet_def to_uint8_def)
  have "atob ''YQ'' = Inr [char_of (97::nat)]"
    by (simp add: atob_def is_ascii_whitespace_def base64_index_def sextet_def)
  then show ?thesis by (simp add: d c)
qed

text \<open>
  C2 (as amended).  For every data-URI string on which \<^verbatim>\<open>base64ToBlob\<close> throws
  (\<^verbatim>\<open>atob\<close> rejects the text between the first and second comma, or the part
  before the first comma has no \<^verbatim>\<open>:\<close> followed by \<^verbatim>\<open>;\<close>),
  normalization fails with that exception, \<^verbatim>\<open>InvalidCharacterError\<close> or
  \<^verbatim>\<open>TypeError\<close>, the promise of the upload rejects with it, and no POST is issued.
\<close>

theorem malformed_data_uri_no_post:
  assumes "take 5 s = ''data:''" and "base64ToBlob_throws s"
  shows "base64ToBlob s =
           Inl (if isl (atob (part1 (split_on CHR '','' s))) then InvalidCharacterError else TypeError)
       \<and> handleImageUpload json_parse window_origin net (StringImage s) =
           \<lparr>requests = [], console = [],
            rejection = Some (if isl (atob (part1 (split_on CHR '','' s)))
                              then InvalidCharacterError else TypeError)\<rparr>"
  using assms
  by (auto simp: handleImageUpload_def build_form_def base64ToBlob_error base64ToBlob_throws_def
           split: sum.splits option.splits)

theorem malformed_data_uri_no_post_witness:
  "take 5 ''data:image/jpeg;base64,***invalid***'' = ''data:''
   \<and> base64ToBlob_throws ''data:image/jpeg;base64,***invalid***''
   \<and> base64ToBlob ''data:image/jpeg;base64,***invalid***'' = Inl InvalidCharacterError
   \<and> handleImageUpload (\<lambda>s. Some (JString s)) (Some ''https://example.org'')
         (FetchResponse 200 (Inr ''ok'')) (StringImage ''data:image/jpeg;base64,***invalid***'') =
       \<lparr>requests = [], console = [], rejection = Some InvalidCharacterError\<rparr>"
proof -
  have a: "atob ''***invalid***'' = Inl InvalidCharacterError"
    by (simp add: atob_def is_ascii_whitespace_def base64_index_def)
  have t: "base64ToBlob_throws ''data:image/jpeg;base64,***invalid***''"
    by (simp add: base64ToBlob_throws_def part1_def a)
  show ?thesis
    using malformed_data_uri_no_post [of "''data:image/jpeg;base64,***invalid***''"
        "\<lambda>s. Some (JString s)" "Some ''https://example.org''" "FetchResponse 200 (Inr ''ok'')"] t
    by (simp add: part1_def a)
qed

text \<open>
  The claim as stated fails where the prefix lacks the \<^verbatim>\<open>base64\<close> marker: the
  string is normalized all the same and the POST is issued.
\<close>

theorem malformed_claim_counterexample:
  "take 5 ''data:image/jpeg;utf8,YQ=='' = ''data:''
   \<and> part0 (split_on CHR '','' ''data:image/jpeg;utf8,YQ=='') = ''data:image/jpeg;utf8''
   \<and> base64ToBlob ''data:image/jpeg;utf8,YQ=='' =
         Inr \<lparr>blob_bytes = [97], blob_type = ''image/jpeg''\<rparr>
   \<and> requests (handleImageUpload (\<lambda>s. Some (JString s)) None (FetchResponse 200 (Inr ''ok''))
        (StringImage ''data:image/jpeg;utf8,YQ=='')) =
       [\<lparr>req_url = ''/api/upload'', req_method = ''POST'',
         req_body = [(''image'', FormFile \<lparr>blob_bytes = [97], blob_type = ''image/jpeg''\<rparr> ''captured.jpg'')]\<rparr>]"
proof -
  have a: "atob ''YQ=='' = Inr [char_of (97::nat)]"
    by (simp add: atob_def is_ascii_whitespace_def base64_index_def sextet_def Let_def)
  have b: "base64ToBlob ''data:image/jpeg;utf8,YQ=='' =
         Inr \<lparr>blob_bytes = [97], blob_type = ''image/jpeg''\<rparr>"
    by (simp add: base64ToBlob_error part1_def part0_def a new_Blob_def ascii_lower_def
         is_line_terminator_def to_uint8_def)
  show ?thesis
    by (simp add: b handleImageUpload_def build_form_def upload_def append_blob_def apiEndpoint_def
         response_ok_def part0_def)
qed

text \<open>
  C3.  For every well-formed data URI whose base64 text decodes to the bytes of
  \<open>byteString\<close>, the upload posts a form with the single file field
  \<^verbatim>\<open>image\<close>, holding exactly those bytes under the filename
  \<^verbatim>\<open>captured.jpg\<close>, and a response with status 200 whose body parses as JSON is
  reported as the server response, with the parsed body.
\<close>

theorem upload_well_formed_success:
  assumes "canonical_base64 rest"
    and "CHR '';'' \<notin> set mime" and "CHR '','' \<notin> set mime"
    and "\<not> list_ex is_line_terminator mime"
    and "atob rest = Inr byteString"
    and "json_parse body = Some data"
  shows "handleImageUpload json_parse window_origin (FetchResponse 200 (Inr body))
           (StringImage (''data:'' @ mime @ '';base64,'' @ rest)) =
         \<lparr>requests =
            [\<lparr>req_url = apiEndpoint window_origin, req_method = ''POST'',
              req_body = [(''image'', FormFile (new_Blob (decoded rest) mime) ''captured.jpg'')]\<rparr>],
          console = [Server_response data], rejection = None\<rparr>
       \<and> blob_bytes (new_Blob (decoded rest) mime) = map (\<lambda>c. to_uint8 (of_char c)) byteString
       \<and> length (blob_bytes (new_Blob (decoded rest) mime)) = length byteString"
proof -
  have d: "decoded rest = map (\<lambda>c. to_uint8 (of_char c)) byteString"
    using decoded_atob [OF assms(1)] assms(5) by auto
  have b: "blob_bytes (new_Blob (decoded rest) mime) = decoded rest"
    by (simp add: new_Blob_def)
  have u: "handleImageUpload json_parse window_origin (FetchResponse 200 (Inr body))
           (StringImage (''data:'' @ mime @ '';base64,'' @ rest)) =
         \<lparr>requests =
            [\<lparr>req_url = apiEndpoint window_origin, req_method = ''POST'',
              req_body = [(''image'', FormFile (new_Blob (decoded rest) mime) ''captured.jpg'')]\<rparr>],
          console = [Server_response data], rejection = None\<rparr>"
    unfolding handleImageUpload_def build_form_well_formed [OF assms(1-4)]
    using assms(6) by (simp add: upload_def response_ok_def)
  show ?thesis
    unfolding b using u d by simp
qed

theorem upload_well_formed_success_witness:
  "canonical_base64 ''/9j/4AAQSkZJRg==''
   \<and> atob ''/9j/4AAQSkZJRg=='' = Inr (map char_of [255, 216, 255, 224, 0, 16, 74, 70, 73, 70 :: nat])
   \<and> handleImageUpload
        (\<lambda>s. if s = ''{\"ok\":true}'' then Some (JObject [(''ok'', JBool True)]) else None)
        (Some ''https://example.org'') (FetchResponse 200 (Inr ''{\"ok\":true}''))
        (StringImage ''data:image/jpeg;base64,/9j/4AAQSkZJRg=='') =
       \<lparr>requests =
          [\<lparr>req_url = ''https://example.org/api/upload'', req_method = ''POST'',
            req_body = [(''image'',
              FormFile \<lparr>blob_bytes = [255, 216, 255, 224, 0, 16, 74, 70, 73, 70],
                        blob_type = ''image/jpeg''\<rparr> ''captured.jpg'')]\<rparr>],
        console = [Server_response (JObject [(''ok'', JBool True)])], rejection = None\<rparr>
   \<and> length [255, 216, 255, 224, 0, 16, 74, 70, 73, 70 :: 8 word] = 10"
proof -
  have c: "canonical_base64 ''/9j/4AAQSkZJRg==''"
    by (simp add: base64_index_def sextet_def)
  have a: "atob ''/9j/4AAQSkZJRg=='' = Inr (map char_of [255, 216, 255, 224, 0, 16, 74, 70, 73, 70 :: nat])"
    by (simp add: atob_canonical [OF c] base64_index_def sextet_def)
  have d: "decoded ''/9j/4AAQSkZJRg=='' = [255, 216, 255, 224, 0, 16, 74, 70, 73, 70]"
    by (simp add: decoded_def base64_index_def sextet_def to_uint8_def)
  have t: "new_Blob [255, 216, 255, 224, 0, 16, 74, 70, 73, 70] ''image/jpeg'' =
     \<lparr>blob_bytes = [255, 216, 255, 224, 0, 16, 74, 70, 73, 70], blob_type = ''image/jpeg''\<rparr>"
    by (simp add: new_Blob_def ascii_lower_def)
  show ?thesis
    using upload_well_formed_success [of "''/9j/4AAQSkZJRg==''" "''image/jpeg''"
        "map char_of [255, 216, 255, 224, 0, 16, 74, 70, 73, 70 :: nat]"
        "\<lambda>s. if s = ''{\"ok\":true}'' then Some (JObject [(''ok'', JBool True)]) else None"
        "''{\"ok\":true}''" "JObject [(''ok'', JBool True)]" "Some ''https://example.org''"] c a
    by (simp add: d t is_line_terminator_def apiEndpoint_def)
qed



text \<open>
  C5.  At most one stream should be live at any time in the mobile camera component.
  The component does not ensure it: the cleanup of a run reads
  \<^verbatim>\<open>activeStream\<close>, which is still \<^verbatim>\<open>null\<close> while
  \<^verbatim>\<open>getUserMedia\<close> is pending.  When the camera is switched before the first
  stream has arrived, nothing is stopped, both promises resolve later, and two streams
  are live; the first one is not stopped at unmount either.
\<close>

theorem toggle_race_two_streams:
  "live (camera_run MobileCamera_mount [SwitchCamera, Granted 0, Granted 1]) =
     [(0, Environment), (1, User)]
   \<and> length (live (camera_run MobileCamera_mount [SwitchCamera, Granted 0, Granted 1])) = 2
   \<and> live (camera_run MobileCamera_mount [SwitchCamera, Granted 0, Granted 1, Unmount]) =
     [(0, Environment)]"
  by (simp add: camera_run_def MobileCamera_mount_def camera_step_def startCamera_def cleanup_def
        toggleCamera_def Let_def)

text \<open>
  C6 (as amended).  A new capture replaces the previous preview in the
  \<^verbatim>\<open>screenshot\<close> state, and a file capture registers a fresh object URL for it;
  no handler revokes an object URL, so a URL that resolves keeps resolving after any
  further captures.
\<close>

theorem object_urls_never_revoked:
  "(resolvable st url \<longrightarrow> resolvable (page_run json_parse window_origin st evs) url)
   \<and> screenshot (handleCapture json_parse window_origin net (FileImage b name) st) =
       Some (''blob:'' @ decimal (next_url st))
   \<and> resolvable (handleCapture json_parse window_origin net (FileImage b name) st)
       (''blob:'' @ decimal (next_url st))
   \<and> screenshot (handleMobileFile json_parse window_origin net (Some (b, name)) st) =
       Some (''blob:'' @ decimal (next_url st))
   \<and> resolvable (handleMobileFile json_parse window_origin net (Some (b, name)) st)
       (''blob:'' @ decimal (next_url st))
   \<and> screenshot (handleCapture json_parse window_origin net (StringImage str) st) = Some str
   \<and> object_urls (handleCapture json_parse window_origin net (StringImage str) st) = object_urls st"
proof -
  have "resolvable st url \<longrightarrow> resolvable (page_run json_parse window_origin st evs) url"
    by (simp add: page_run_resolvable)
  then show ?thesis
    by (simp add: handleCapture_simps handleMobileFile_simps resolvable_def)
qed

theorem object_urls_never_revoked_witness:
  "resolvable
     (handleMobileFile (\<lambda>s. Some (JString s)) None (FetchResponse 200 (Inr ''ok''))
        (Some (\<lparr>blob_bytes = [1, 2, 3], blob_type = ''image/jpeg''\<rparr>, ''a.jpg''))
        (Analyse_init :: json analyse_state)) ''blob:0''
   \<and> resolvable
     (page_run (\<lambda>s. Some (JString s)) None
        (handleMobileFile (\<lambda>s. Some (JString s)) None (FetchResponse 200 (Inr ''ok''))
           (Some (\<lparr>blob_bytes = [1, 2, 3], blob_type = ''image/jpeg''\<rparr>, ''a.jpg''))
           (Analyse_init :: json analyse_state))
        [MobileFile (Some (\<lparr>blob_bytes = [4, 5], blob_type = ''image/png''\<rparr>, ''b.png''))
           (FetchResponse 200 (Inr ''ok''))]) ''blob:0''"
proof -
  let ?st1 = "handleMobileFile (\<lambda>s. Some (JString s)) None (FetchResponse 200 (Inr ''ok''))
        (Some (\<lparr>blob_bytes = [1, 2, 3], blob_type = ''image/jpeg''\<rparr>, ''a.jpg''))
        (Analyse_init :: json analyse_state)"
  have r: "resolvable ?st1 ''blob:0''"
    by (simp add: handleMobileFile_simps resolvable_def Analyse_init_def decimal_digits)
  show ?thesis
    using r object_urls_never_revoked [of ?st1 "''blob:0''" "\<lambda>s. Some (JString s)" None
        "[MobileFile (Some (\<lparr>blob_bytes = [4, 5], blob_type = ''image/png''\<rparr>, ''b.png''))
           (FetchResponse 200 (Inr ''ok''))]"]
    by blast
qed

text \<open>
  The claim as stated fails: after two file captures the first object URL is still
  registered beside the second.
\<close>

theorem preview_release_counterexample:
  "(let st1 = handleCapture (\<lambda>s. Some (JString s)) None (FetchResponse 200 (Inr ''ok''))
               (FileImage \<lparr>blob_bytes = [1, 2, 3], blob_type = ''image/jpeg''\<rparr> ''a.jpg'')
               (Analyse_init :: json analyse_state);
        st2 = handleCapture (\<lambda>s. Some (JString s)) None (FetchResponse 200 (Inr ''ok''))
               (FileImage \<lparr>blob_bytes = [4, 5], blob_type = ''image/png''\<rparr> ''b.png'') st1
    in screenshot st1 = Some ''blob:0'' \<and> screenshot st2 = Some ''blob:1''
       \<and> resolvable st2 ''blob:0'' \<and> resolvable st2 ''blob:1''
       \<and> map fst (object_urls st2) = [''blob:0'', ''blob:1''])"
  by (simp add: handleCapture_simps resolvable_def Analyse_init_def decimal_digits Let_def)

text \<open>
  C7.  The preview of a capture does not depend on the upload, for both capture paths
  of the page, \<^verbatim>\<open>handleCapture\<close> and \<^verbatim>\<open>handleMobileFile\<close>, and so
  for every event of the page: whatever the network answers, the
  \<^verbatim>\<open>screenshot\<close> state and the rendered page are the same, the state holds the
  preview of this capture, and it is displayed.  In particular a response 500 with body
  \<^verbatim>\<open>server error\<close> is reported as an upload error and the preview stays.
\<close>

theorem preview_independent_of_upload:
  "screenshot (handleCapture json_parse window_origin net data st) =
     screenshot (handleCapture json_parse window_origin net' data st)
   \<and> render (handleCapture json_parse window_origin net data st) =
     render (handleCapture json_parse window_origin net' data st)
   \<and> screenshot (handleCapture json_parse window_origin net data st) =
     Some (case data of StringImage str \<Rightarrow> str
           | BlobImage b \<Rightarrow> ''blob:'' @ decimal (next_url st)
           | FileImage b name \<Rightarrow> ''blob:'' @ decimal (next_url st))
   \<and> (isMobileDevice st \<noteq> None \<and> data \<noteq> StringImage [] \<longrightarrow>
        captured_image (render (handleCapture json_parse window_origin net data st)) =
          screenshot (handleCapture json_parse window_origin net data st))
   \<and> (build_form data = Inr formData \<longrightarrow>
        last (uploads (handleCapture json_parse window_origin
                (FetchResponse 500 (Inr ''server error'')) data st)) =
          \<lparr>requests = [\<lparr>req_url = apiEndpoint window_origin, req_method = ''POST'',
                          req_body = formData\<rparr>],
           console = [Upload_error 500 ''server error''], rejection = None\<rparr>)
   \<and> screenshot (handleMobileFile json_parse window_origin net picked st) =
     screenshot (handleMobileFile json_parse window_origin net' picked st)
   \<and> render (handleMobileFile json_parse window_origin net picked st) =
     render (handleMobileFile json_parse window_origin net' picked st)
   \<and> screenshot (handleMobileFile json_parse window_origin net picked st) =
     (case picked of None \<Rightarrow> screenshot st
      | Some (b, name) \<Rightarrow> Some (''blob:'' @ decimal (next_url st)))
   \<and> (isMobileDevice st \<noteq> None \<and> picked \<noteq> None \<longrightarrow>
        captured_image (render (handleMobileFile json_parse window_origin net picked st)) =
          screenshot (handleMobileFile json_parse window_origin net picked st))
   \<and> last (uploads (handleMobileFile json_parse window_origin
              (FetchResponse 500 (Inr ''server error'')) (Some (b, name)) st)) =
        \<lparr>requests = [\<lparr>req_url = apiEndpoint window_origin, req_method = ''POST'',
                        req_body = [(''image'', FormFile b name)]\<rparr>],
         console = [Upload_error 500 ''server error''], rejection = None\<rparr>
   \<and> screenshot (page_step json_parse window_origin st (Capture data net)) =
     screenshot (page_step json_parse window_origin st (Capture data net'))
   \<and> render (page_step json_parse window_origin st (Capture data net)) =
     render (page_step json_parse window_origin st (Capture data net'))
   \<and> screenshot (page_step json_parse window_origin st (MobileFile picked net)) =
     screenshot (page_step json_parse window_origin st (MobileFile picked net'))
   \<and> render (page_step json_parse window_origin st (MobileFile picked net)) =
     render (page_step json_parse window_origin st (MobileFile picked net'))"
proof -
  have c: "screenshot (handleCapture json_parse window_origin n data st) =
     Some (case data of StringImage str \<Rightarrow> str
           | BlobImage b \<Rightarrow> ''blob:'' @ decimal (next_url st)
           | FileImage b name \<Rightarrow> ''blob:'' @ decimal (next_url st))
     \<and> isMobileDevice (handleCapture json_parse window_origin n data st) = isMobileDevice st" for n
    by (cases data) (simp_all add: handleCapture_simps)
  have cr: "render (handleCapture json_parse window_origin n data st) =
      render (handleCapture json_parse window_origin n' data st)" for n n'
    using c [of n] c [of n'] by (intro render_cong) simp_all
  have cd: "isMobileDevice st \<noteq> None \<and> data \<noteq> StringImage [] \<longrightarrow>
        captured_image (render (handleCapture json_parse window_origin net data st)) =
          screenshot (handleCapture json_parse window_origin net data st)"
    using c [of net] by (cases data) (auto simp: render_def split: option.splits)
  have cu: "build_form data = Inr formData \<longrightarrow>
        last (uploads (handleCapture json_parse window_origin
                (FetchResponse 500 (Inr ''server error'')) data st)) =
          \<lparr>requests = [\<lparr>req_url = apiEndpoint window_origin, req_method = ''POST'',
                          req_body = formData\<rparr>],
           console = [Upload_error 500 ''server error''], rejection = None\<rparr>"
    by (cases data)
       (auto simp: handleCapture_simps handleImageUpload_def upload_def response_ok_def)
  have m: "screenshot (handleMobileFile json_parse window_origin n picked st) =
     (case picked of None \<Rightarrow> screenshot st
      | Some (b, name) \<Rightarrow> Some (''blob:'' @ decimal (next_url st)))
     \<and> isMobileDevice (handleMobileFile json_parse window_origin n picked st) = isMobileDevice st" for n
    by (cases picked) (auto simp: handleMobileFile_simps)
  have mr: "render (handleMobileFile json_parse window_origin n picked st) =
      render (handleMobileFile json_parse window_origin n' picked st)" for n n'
    using m [of n] m [of n'] by (intro render_cong) simp_all
  have md: "isMobileDevice st \<noteq> None \<and> picked \<noteq> None \<longrightarrow>
        captured_image (render (handleMobileFile json_parse window_origin net picked st)) =
          screenshot (handleMobileFile json_parse window_origin net picked st)"
    using m [of net] by (cases picked) (auto simp: render_def split: option.splits)
  have mu: "last (uploads (handleMobileFile json_parse window_origin
              (FetchResponse 500 (Inr ''server error'')) (Some (b, name)) st)) =
        \<lparr>requests = [\<lparr>req_url = apiEndpoint window_origin, req_method = ''POST'',
                        req_body = [(''image'', FormFile b name)]\<rparr>],
         console = [Upload_error 500 ''server error''], rejection = None\<rparr>"
    by (simp add: handleMobileFile_simps handleImageUpload_def build_form_def append_blob_def
          upload_def response_ok_def)
  show ?thesis
    unfolding page_step_def page_event.case
    using c [of net] c [of net'] cr [of net net'] cd cu m [of net] m [of net'] mr [of net net'] md mu
    by (intro conjI) (simp_all only:)
qed

theorem preview_independent_of_upload_witness:
  "captured_image (render
      (handleCapture (\<lambda>s. Some (JString s)) None (FetchResponse 500 (Inr ''server error''))
         (FileImage \<lparr>blob_bytes = [1, 2, 3], blob_type = ''image/jpeg''\<rparr> ''a.jpg'')
         ((Analyse_init :: json analyse_state)\<lparr>isMobileDevice := Some False\<rparr>))) = Some ''blob:0''
   \<and> last (uploads
      (handleCapture (\<lambda>s. Some (JString s)) None (FetchResponse 500 (Inr ''server error''))
         (FileImage \<lparr>blob_bytes = [1, 2, 3], blob_type = ''image/jpeg''\<rparr> ''a.jpg'')
         ((Analyse_init :: json analyse_state)\<lparr>isMobileDevice := Some False\<rparr>))) =
       \<lparr>requests = [\<lparr>req_url = ''/api/upload'', req_method = ''POST'',
          req_body = [(''image'',
            FormFile \<lparr>blob_bytes = [1, 2, 3], blob_type = ''image/jpeg''\<rparr> ''a.jpg'')]\<rparr>],
        console = [Upload_error 500 ''server error''], rejection = None\<rparr>
   \<and> captured_image (render
      (handleMobileFile (\<lambda>s. Some (JString s)) None (FetchResponse 500 (Inr ''server error''))
         (Some (\<lparr>blob_bytes = [1, 2, 3], blob_type = ''image/jpeg''\<rparr>, ''a.jpg''))
         ((Analyse_init :: json analyse_state)\<lparr>isMobileDevice := Some True\<rparr>))) = Some ''blob:0''
   \<and> last (uploads
      (handleMobileFile (\<lambda>s. Some (JString s)) None (FetchResponse 500 (Inr ''server error''))
         (Some (\<lparr>blob_bytes = [1, 2, 3], blob_type = ''image/jpeg''\<rparr>, ''a.jpg''))
         ((Analyse_init :: json analyse_state)\<lparr>isMobileDevice := Some True\<rparr>))) =
       \<lparr>requests = [\<lparr>req_url = ''/api/upload'', req_method = ''POST'',
          req_body = [(''image'',
            FormFile \<lparr>blob_bytes = [1, 2, 3], blob_type = ''image/jpeg''\<rparr> ''a.jpg'')]\<rparr>],
        console = [Upload_error 500 ''server error''], rejection = None\<rparr>"
proof -
  let ?jp = "\<lambda>s. Some (JString s)"
  let ?net = "FetchResponse 500 (Inr ''server error'')"
  let ?b = "\<lparr>blob_bytes = [1, 2, 3], blob_type = ''image/jpeg''\<rparr>"
  have b: "build_form (FileImage ?b ''a.jpg'') = Inr [(''image'', FormFile ?b ''a.jpg'')]"
    by (simp add: build_form_def append_blob_def)
  have 1: "captured_image (render (handleCapture ?jp None ?net (FileImage ?b ''a.jpg'')
         ((Analyse_init :: json analyse_state)\<lparr>isMobileDevice := Some False\<rparr>))) = Some ''blob:0''
   \<and> last (uploads (handleCapture ?jp None ?net (FileImage ?b ''a.jpg'')
         ((Analyse_init :: json analyse_state)\<lparr>isMobileDevice := Some False\<rparr>))) =
       \<lparr>requests = [\<lparr>req_url = ''/api/upload'', req_method = ''POST'',
          req_body = [(''image'', FormFile ?b ''a.jpg'')]\<rparr>],
        console = [Upload_error 500 ''server error''], rejection = None\<rparr>"
    using b preview_independent_of_upload [where json_parse = ?jp and window_origin = None
        and net = ?net and data = "FileImage ?b ''a.jpg''"
        and st = "(Analyse_init :: json analyse_state)\<lparr>isMobileDevice := Some False\<rparr>"
        and formData = "[(''image'', FormFile ?b ''a.jpg'')]"]
    by (simp add: Analyse_init_def decimal_digits apiEndpoint_def)
  have 2: "captured_image (render (handleMobileFile ?jp None ?net (Some (?b, ''a.jpg''))
         ((Analyse_init :: json analyse_state)\<lparr>isMobileDevice := Some True\<rparr>))) = Some ''blob:0''
   \<and> last (uploads (handleMobileFile ?jp None ?net (Some (?b, ''a.jpg''))
         ((Analyse_init :: json analyse_state)\<lparr>isMobileDevice := Some True\<rparr>))) =
       \<lparr>requests = [\<lparr>req_url = ''/api/upload'', req_method = ''POST'',
          req_body = [(''image'', FormFile ?b ''a.jpg'')]\<rparr>],
        console = [Upload_error 500 ''server error''], rejection = None\<rparr>"
    using preview_independent_of_upload [where json_parse = ?jp and window_origin = None
        and net = ?net and picked = "Some (?b, ''a.jpg'')" and b = ?b and name = "''a.jpg''"
        and st = "(Analyse_init :: json analyse_state)\<lparr>isMobileDevice := Some True\<rparr>"]
    by (simp add: Analyse_init_def decimal_digits apiEndpoint_def)
  from 1 2 show ?thesis by simp
qed

text \<open>
  C8 (as amended).  A blob or a file goes into the field \<^verbatim>\<open>image\<close> with its
  bytes and MIME type unchanged; the filename is the name of the file for a
  \<^verbatim>\<open>File\<close>, and the platform's default \<^verbatim>\<open>blob\<close> for a plain blob.
\<close>

theorem build_form_blob_file:
  "build_form (BlobImage b) = Inr [(''image'', FormFile b ''blob'')]
   \<and> build_form (FileImage b name) = Inr [(''image'', FormFile b name)]
   \<and> requests (handleImageUpload json_parse window_origin net (BlobImage b)) =
       [\<lparr>req_url = apiEndpoint window_origin, req_method = ''POST'',
         req_body = [(''image'', FormFile b ''blob'')]\<rparr>]
   \<and> requests (handleImageUpload json_parse window_origin net (FileImage b name)) =
       [\<lparr>req_url = apiEndpoint window_origin, req_method = ''POST'',
         req_body = [(''image'', FormFile b name)]\<rparr>]"
  by (auto simp: handleImageUpload_def build_form_def append_blob_def upload_def Let_def
           split: fetch_result.splits sum.splits option.splits)

text \<open>
  The claim as stated fails for a plain blob: no filename is passed with it, so the
  entry gets the name \<^verbatim>\<open>blob\<close>, not \<^verbatim>\<open>captured.jpg\<close>.
\<close>

theorem plain_blob_filename_counterexample:
  "build_form (BlobImage \<lparr>blob_bytes = [1, 2, 3], blob_type = ''image/jpeg''\<rparr>) =
     Inr [(''image'', FormFile \<lparr>blob_bytes = [1, 2, 3], blob_type = ''image/jpeg''\<rparr> ''blob'')]
   \<and> ''blob'' \<noteq> ''captured.jpg''"
  by (simp add: build_form_def append_blob_def)

text \<open>
  C9.  The capture mode starts unknown (\<^verbatim>\<open>null\<close>) and the first render is the
  loading view with no capture widget; the effect after the first render sets it to
  mobile exactly when the user agent contains one of iPhone, iPad, iPod, Android, letters
  compared without regard to case, else to desktop; no event handler changes it
  afterwards, so it never is unknown again; while it is unknown only the loading view is
  rendered, and once it is known the widgets of that mode are.
\<close>

theorem capture_mode_lifecycle:
  "isMobileDevice (Analyse_init :: 'j analyse_state) = None
   \<and> render (Analyse_init :: 'j analyse_state) =
       \<lparr>loading = True, widgets = [], captured_image = None\<rparr>
   \<and> (isMobileDevice st = None \<longrightarrow>
        render st = \<lparr>loading = True, widgets = [], captured_image = None\<rparr>)
   \<and> (\<forall>m. isMobileDevice st = Some m \<longrightarrow>
        loading (render st) = False \<and>
        widgets (render st) =
          (if m then [MobileCameraWidget, MobileFileInput] else [DesktopCameraWidget]))
   \<and> (\<exists>m. isMobileDevice (Analyse_session (json_parse :: string \<Rightarrow> 'j option) window_origin
              (Some userAgent) evs) = Some m \<and>
        (m \<longleftrightarrow> (\<exists>pre w post alt. userAgent = pre @ w @ post \<and>
                 alt \<in> {''iPhone'', ''iPad'', ''iPod'', ''Android''} \<and>
                 map ascii_upper w = map ascii_upper alt)))
   \<and> isMobileDevice (Analyse_session json_parse window_origin None evs) = Some False
   \<and> isMobileDevice (Analyse_session json_parse window_origin ua evs) =
       isMobileDevice (Analyse_session json_parse window_origin ua [])
   \<and> isMobileDevice (page_run json_parse window_origin st evs) = isMobileDevice st"
proof -
  have 0: "isMobileDevice (Analyse_session json_parse window_origin u es) =
      isMobileDevice (detect_effect u (Analyse_init :: 'j analyse_state))" for u es
    by (simp add: Analyse_session_def page_run_isMobileDevice)
  have 1: "isMobileDevice (detect_effect (Some userAgent) st') =
      Some (regex_test mobile_patterns userAgent)" for st' :: "'j analyse_state"
    by (simp add: detect_effect_def)
  have 2: "regex_test mobile_patterns userAgent \<longleftrightarrow> (\<exists>pre w post alt. userAgent = pre @ w @ post \<and>
                 alt \<in> {''iPhone'', ''iPad'', ''iPod'', ''Android''} \<and>
                 map ascii_upper w = map ascii_upper alt)"
    unfolding regex_test_iff by (simp only: mobile_patterns_def list.set)
  have 3: "isMobileDevice (detect_effect None st') = Some False" for st' :: "'j analyse_state"
    by (simp add: detect_effect_def mobile_patterns_def matches_here_def)
  have a: "isMobileDevice (Analyse_init :: 'j analyse_state) = None
   \<and> render (Analyse_init :: 'j analyse_state) =
       \<lparr>loading = True, widgets = [], captured_image = None\<rparr>"
    by (simp add: Analyse_init_def render_def)
  have b: "isMobileDevice st = None \<longrightarrow>
        render st = \<lparr>loading = True, widgets = [], captured_image = None\<rparr>"
    by (simp add: render_def)
  have c: "\<forall>m. isMobileDevice st = Some m \<longrightarrow>
        loading (render st) = False \<and>
        widgets (render st) =
          (if m then [MobileCameraWidget, MobileFileInput] else [DesktopCameraWidget])"
    by (simp add: render_def)
  have d: "\<exists>m. isMobileDevice (Analyse_session json_parse window_origin
              (Some userAgent) evs) = Some m \<and>
        (m \<longleftrightarrow> (\<exists>pre w post alt. userAgent = pre @ w @ post \<and>
                 alt \<in> {''iPhone'', ''iPad'', ''iPod'', ''Android''} \<and>
                 map ascii_upper w = map ascii_upper alt))"
    unfolding 0 1 using 2 by blast
  have e: "isMobileDevice (Analyse_session json_parse window_origin None evs) = Some False"
    unfolding 0 3 ..
  have f: "isMobileDevice (Analyse_session json_parse window_origin ua evs) =
       isMobileDevice (Analyse_session json_parse window_origin ua [])"
    by (simp only: 0)
  have g: "isMobileDevice (page_run json_parse window_origin st evs) = isMobileDevice st"
    by (rule page_run_isMobileDevice)
  from a b c d e f g show ?thesis by blast
qed

theorem capture_mode_lifecycle_witness:
  "isMobileDevice (Analyse_session (\<lambda>s. Some (JString s)) None
      (Some ''Mozilla/5.0 (Linux; ANDROID 13)'')
      [Capture (StringImage ''data:,'') (FetchRejected (NetworkError ''offline''))]) = Some True
   \<and> isMobileDevice (Analyse_session (\<lambda>s. Some (JString s)) None
      (Some ''Mozilla/5.0 (X11; Linux x86_64)'')
      [Capture (StringImage ''data:,'') (FetchRejected (NetworkError ''offline''))]) = Some False
   \<and> widgets (render (Analyse_session (\<lambda>s. Some (JString s)) None
      (Some ''Mozilla/5.0 (Linux; ANDROID 13)'') [])) = [MobileCameraWidget, MobileFileInput]
   \<and> widgets (render (Analyse_session (\<lambda>s. Some (JString s)) None
      (Some ''Mozilla/5.0 (X11; Linux x86_64)'') [])) = [DesktopCameraWidget]"
proof -
  let ?jp = "\<lambda>s. Some (JString s)"
  let ?evs = "[Capture (StringImage ''data:,'') (FetchRejected (NetworkError ''offline''))]"
  have a: "regex_test mobile_patterns ''Mozilla/5.0 (Linux; ANDROID 13)''"
    by (simp add: mobile_patterns_def matches_here_def ascii_upper_def)
  have b: "\<not> regex_test mobile_patterns ''Mozilla/5.0 (X11; Linux x86_64)''"
    by (simp add: mobile_patterns_def matches_here_def ascii_upper_def)
  have s: "isMobileDevice (Analyse_session ?jp None (Some u) [] :: json analyse_state) =
      Some (regex_test mobile_patterns u)" for u
    by (simp add: Analyse_session_def page_run_def detect_effect_def)
  have f: "isMobileDevice (Analyse_session ?jp None (Some u) ?evs :: json analyse_state) =
      isMobileDevice (Analyse_session ?jp None (Some u) [] :: json analyse_state)" for u
    using capture_mode_lifecycle [where ?'j = json and json_parse = ?jp and window_origin = None
      and evs = ?evs and ua = "Some u"]
    by blast
  have w: "widgets (render (Analyse_session ?jp None (Some u) [] :: json analyse_state)) =
      (if regex_test mobile_patterns u then [MobileCameraWidget, MobileFileInput]
       else [DesktopCameraWidget])" for u
    by (simp add: Analyse_session_def page_run_def detect_effect_def render_def)
  show ?thesis
    unfolding f s w using a b by simp
qed

text \<open>
  C10.  The facing-mode toggle is an involution: one application of
  \<^verbatim>\<open>toggleCamera\<close> changes the value (environment becomes user, user becomes
  environment) and two successive applications give back the original facing mode.
\<close>

theorem toggleCamera_involution:
  "toggleCamera f \<noteq> f \<and> toggleCamera Environment = User \<and> toggleCamera User = Environment
   \<and> toggleCamera (toggleCamera f) = f"
  by (cases f) (simp_all add: toggleCamera_def)

end
